theory Spec2Isabelle
  imports Complex_Main "HOL-Library.Monad_Syntax"
begin

section \<open>The chunked transcription pipeline of \<open>src/transcript/speechtotext.py\<close>\<close>

text \<open>
  The theory embeds the class \<open>AudioTranscriber\<close>: the configuration fields set by
  \<open>__init__\<close>, the generator \<open>chunk_audio\<close>, the two wrappers \<open>load_audio\<close> and
  \<open>transcribe_batch\<close> around the external decoder and the external inference pipeline, and
  the driver \<open>transcribe_audio\<close>.

  Python integers are \<open>int\<close>. The two durations are annotated \<open>int\<close> in the source but
  nothing stops a caller from passing a fraction of a second, so they are rationals here: a
  Python \<open>int\<close>, a \<open>Fraction\<close>, or a \<open>float\<close> taken at its exact value. The product with
  the sample rate is the exact one. That is what the source computes for an \<open>int\<close> or a
  \<open>Fraction\<close>, and for a \<open>float\<close> whenever the exact product is a \<open>float\<close> again; where
  the floating-point product is rounded (and for \<open>inf\<close> and \<open>nan\<close>, which are no
  rationals) the source differs, and the model says nothing. The theorems on
  \<open>chunk_audio\<close> and \<open>transcribe_audio\<close> are stated for whatever values the two sample
  counts have, so they do not depend on how the counts are computed. A waveform is a list
  of samples of any type.
\<close>

subsection \<open>Configuration\<close>

definition SAMPLE_RATE :: int where
  "SAMPLE_RATE = 16000"

definition DEFAULT_CHUNK_LENGTH_SECONDS :: rat where
  "DEFAULT_CHUNK_LENGTH_SECONDS = 30"

definition DEFAULT_OVERLAP_SECONDS :: rat where
  "DEFAULT_OVERLAP_SECONDS = 2"

definition DEFAULT_BATCH_SIZE :: int where
  "DEFAULT_BATCH_SIZE = 8"

record AudioTranscriber =
  chunk_length_seconds :: rat
  overlap_seconds :: rat
  batch_size :: int
  sample_rate :: int

text \<open>
  \<open>__init__\<close> stores its arguments and the constant sample rate. It checks none of them.
  (Loading the model and building the pipeline is the external collaborator; the pipeline
  is a parameter of the operations below.)
\<close>

definition init :: "rat \<Rightarrow> rat \<Rightarrow> int \<Rightarrow> AudioTranscriber" where
  "init cl ov bs =
     \<lparr>chunk_length_seconds = cl, overlap_seconds = ov, batch_size = bs,
      sample_rate = SAMPLE_RATE\<rparr>"

text \<open>Python's \<open>int(x)\<close> on a number: the fractional part is cut off, towards zero.\<close>

definition py_int :: "rat \<Rightarrow> int" where
  "py_int x = (if 0 \<le> x then \<lfloor>x\<rfloor> else \<lceil>x\<rceil>)"

text \<open>
  The first two lines of the body of \<open>chunk_audio\<close>, with the exact product (see above
  for floating-point durations).
\<close>

definition chunk_length_samples :: "AudioTranscriber \<Rightarrow> int" where
  "chunk_length_samples T = py_int (chunk_length_seconds T * of_int (sample_rate T))"

definition overlap_samples :: "AudioTranscriber \<Rightarrow> int" where
  "overlap_samples T = py_int (overlap_seconds T * of_int (sample_rate T))"

subsection \<open>Slices\<close>

text \<open>
  \<open>audio_data[start:end]\<close>: a negative bound counts from the end of the array, both bounds
  are clamped to the array, and a slice whose upper bound is not above its lower bound is
  empty.
\<close>

definition py_slice :: "'a list \<Rightarrow> int \<Rightarrow> int \<Rightarrow> 'a list" where
  "py_slice xs i j =
     (let n = int (length xs);
          lo = (if i < 0 then max (i + n) 0 else min i n);
          hi = (if j < 0 then max (j + n) 0 else min j n)
      in take (nat (hi - lo)) (drop (nat lo) xs))"

subsection \<open>The generator \<open>chunk_audio\<close>\<close>

text \<open>
  A generator is suspended either before a test of the loop condition, with the value of
  \<open>start\<close>, or for good (after \<open>break\<close>, or after the loop condition failed).
\<close>

datatype chunk_gen = At int | Stopped

text \<open>
  One call of \<open>next\<close>: \<open>None\<close> is \<open>StopIteration\<close>; otherwise the window
  \<open>(start, end)\<close> of the chunk \<open>audio_data[start:end]\<close> that is yielded, and the generator
  as it is resumed by the following call (stopped if \<open>end == len(audio_data)\<close>, else
  advanced by \<open>chunk_length_samples - overlap_samples\<close>).
\<close>

fun chunk_next :: "AudioTranscriber \<Rightarrow> 'a list \<Rightarrow> chunk_gen \<Rightarrow> ((int \<times> int) \<times> chunk_gen) option" where
  "chunk_next T audio_data Stopped = None"
| "chunk_next T audio_data (At start) =
     (if start < int (length audio_data) then
        (let end = min (start + chunk_length_samples T) (int (length audio_data))
         in Some ((start, end),
              if end = int (length audio_data) then Stopped
              else At (start + (chunk_length_samples T - overlap_samples T))))
      else None)"

definition chunk_of :: "'a list \<Rightarrow> int \<times> int \<Rightarrow> 'a list" where
  "chunk_of audio_data w = py_slice audio_data (fst w) (snd w)"

text \<open>
  Running a generator to its end. The loop of the source has no bound, so the result is
  \<open>None\<close> when the generator never stops.
\<close>

partial_function (option) chunk_windows_from ::
    "AudioTranscriber \<Rightarrow> 'a list \<Rightarrow> chunk_gen \<Rightarrow> (int \<times> int) list option" where
  "chunk_windows_from T audio_data g =
     (case chunk_next T audio_data g of
        None \<Rightarrow> Some []
      | Some (w, g') \<Rightarrow> chunk_windows_from T audio_data g' \<bind> (\<lambda>ws. Some (w # ws)))"

declare chunk_windows_from.simps [code]

definition chunk_windows :: "AudioTranscriber \<Rightarrow> 'a list \<Rightarrow> (int \<times> int) list option" where
  "chunk_windows T audio_data = chunk_windows_from T audio_data (At 0)"

definition chunk_audio :: "AudioTranscriber \<Rightarrow> 'a list \<Rightarrow> 'a list list option" where
  "chunk_audio T audio_data =
     chunk_windows T audio_data \<bind> (\<lambda>ws. Some (map (chunk_of audio_data) ws))"

subsection \<open>The wrappers around the decoder and the inference pipeline\<close>

text \<open>
  \<open>AudioLoadError\<close> stands for whatever exception \<open>librosa.load\<close> raised and
  \<open>load_audio\<close> raised again, \<open>InferenceError\<close> for whatever exception the pipeline raised
  and \<open>transcribe_batch\<close> raised again, and \<open>TypeError\<close> is what Python raises for the call
  \<open>logging.error()\<close>, which lacks the required argument \<open>msg\<close>.
\<close>

datatype error = AudioLoadError | InferenceError | TypeError

text \<open>The decoder: \<open>None\<close> when \<open>librosa.load\<close> raises.\<close>

type_synonym 'a decoder = "string \<Rightarrow> 'a list option"

text \<open>
  The pipeline: it receives the list of chunks and has a state of its own (the model, the
  accelerator); its answer is \<open>None\<close> when it raises.
\<close>

type_synonym ('a, 's) pipeline = "'a list list \<Rightarrow> 's \<Rightarrow> string list option \<times> 's"

definition load_audio :: "'a decoder \<Rightarrow> string \<Rightarrow> error + 'a list" where
  "load_audio librosa_load audio_file =
     (case librosa_load audio_file of
        Some audio_data \<Rightarrow> Inr audio_data
      | None \<Rightarrow> Inl AudioLoadError)"

definition transcribe_batch ::
    "('a, 's) pipeline \<Rightarrow> 'a list list \<Rightarrow> 's \<Rightarrow> (error + string list) \<times> 's" where
  "transcribe_batch pipe audio_chunks s =
     (case pipe audio_chunks s of
        (Some transcriptions, s') \<Rightarrow> (Inr transcriptions, s')
      | (None, s') \<Rightarrow> (Inl InferenceError, s'))"

subsection \<open>The driver \<open>transcribe_audio\<close>\<close>

text \<open>\<open>sep.join(xs)\<close>\<close>

fun str_join :: "string \<Rightarrow> string list \<Rightarrow> string" where
  "str_join sep [] = []"
| "str_join sep [x] = x"
| "str_join sep (x # y # ys) = x @ sep @ str_join sep (y # ys)"

text \<open>
  The \<open>for\<close> loop over the generator, from the generator state \<open>g\<close> with the two local
  lists and the state of the pipeline. It ends with an exception of \<open>transcribe_batch\<close>, or
  with the two lists when the generator is exhausted, or never.
\<close>

partial_function (option) for_loop ::
    "AudioTranscriber \<Rightarrow> ('a, 's) pipeline \<Rightarrow> 'a list \<Rightarrow> chunk_gen \<Rightarrow> 'a list list \<Rightarrow> string list \<Rightarrow> 's
      \<Rightarrow> ((error + 'a list list \<times> string list) \<times> 's) option" where
  "for_loop T pipe audio_data g batch_chunks all_transcriptions s =
     (case chunk_next T audio_data g of
        None \<Rightarrow> Some (Inr (batch_chunks, all_transcriptions), s)
      | Some (w, g') \<Rightarrow>
          (let batch_chunks = batch_chunks @ [chunk_of audio_data w]
           in if int (length batch_chunks) = batch_size T then
                (case transcribe_batch pipe batch_chunks s of
                   (Inl e, s') \<Rightarrow> Some (Inl e, s')
                 | (Inr transcriptions, s') \<Rightarrow>
                     for_loop T pipe audio_data g' [] (all_transcriptions @ transcriptions) s')
              else for_loop T pipe audio_data g' batch_chunks all_transcriptions s))"

declare for_loop.simps [code]

text \<open>The body of the \<open>try\<close> block.\<close>

definition transcribe_body ::
    "AudioTranscriber \<Rightarrow> 'a decoder \<Rightarrow> ('a, 's) pipeline \<Rightarrow> string \<Rightarrow> 's \<Rightarrow> ((error + string) \<times> 's) option" where
  "transcribe_body T librosa_load pipe audio_file s =
     (case load_audio librosa_load audio_file of
        Inl e \<Rightarrow> Some (Inl e, s)
      | Inr audio_data \<Rightarrow>
          (case for_loop T pipe audio_data (At 0) [] [] s of
             None \<Rightarrow> None
           | Some (Inl e, s') \<Rightarrow> Some (Inl e, s')
           | Some (Inr (batch_chunks, all_transcriptions), s') \<Rightarrow>
               if batch_chunks \<noteq> [] then
                 (case transcribe_batch pipe batch_chunks s' of
                    (Inl e, s'') \<Rightarrow> Some (Inl e, s'')
                  | (Inr transcriptions, s'') \<Rightarrow>
                      Some (Inr (str_join '' '' (all_transcriptions @ transcriptions)), s''))
               else Some (Inr (str_join '' '' all_transcriptions), s')))"

text \<open>
  The handler \<open>except Exception as e: logging.error()\<close>: the call has no message, so it
  raises \<open>TypeError\<close> itself, and that is the exception that leaves \<open>transcribe_audio\<close>.
\<close>

definition transcribe_audio ::
    "AudioTranscriber \<Rightarrow> 'a decoder \<Rightarrow> ('a, 's) pipeline \<Rightarrow> string \<Rightarrow> 's \<Rightarrow> ((error + string) \<times> 's) option" where
  "transcribe_audio T librosa_load pipe audio_file s =
     (case transcribe_body T librosa_load pipe audio_file s of
        None \<Rightarrow> None
      | Some (Inl e, s') \<Rightarrow> Some (Inl TypeError, s')
      | Some (Inr full_transcription, s') \<Rightarrow> Some (Inr full_transcription, s'))"

subsection \<open>Auxiliary notions for the proofs\<close>

text \<open>
  The loop of \<open>chunk_audio\<close> as a relation between the value of \<open>start\<close> at a test of
  the loop condition and the windows yielded from there on, for the sizes \<open>cls\<close>
  (chunk length), \<open>ovs\<close> (overlap) and the length \<open>n\<close> of the waveform: the loop
  condition fails, or the window reaches the end of the waveform and the loop breaks, or
  the window is a full one and the loop goes on.
\<close>

inductive windows_run :: "int \<Rightarrow> int \<Rightarrow> int \<Rightarrow> int \<Rightarrow> (int \<times> int) list \<Rightarrow> bool"
  for cls ovs n where
  wr_done: "\<not> start < n \<Longrightarrow> windows_run cls ovs n start []"
| wr_last: "start < n \<Longrightarrow> n \<le> start + cls \<Longrightarrow> windows_run cls ovs n start [(start, n)]"
| wr_more: "start < n \<Longrightarrow> start + cls < n \<Longrightarrow>
    windows_run cls ovs n (start + (cls - ovs)) ws \<Longrightarrow>
    windows_run cls ovs n start ((start, start + cls) # ws)"

code_pred windows_run .

text \<open>
  The \<open>for\<close> loop of \<open>transcribe_audio\<close> over a generator that is known to yield
  the finite list \<open>chunks\<close>.
\<close>

fun batch_loop ::
    "AudioTranscriber \<Rightarrow> ('a, 's) pipeline \<Rightarrow> 'a list list \<Rightarrow> 'a list list \<Rightarrow> string list \<Rightarrow> 's
      \<Rightarrow> (error + 'a list list \<times> string list) \<times> 's" where
  "batch_loop T pipe [] batch_chunks all_transcriptions s =
     (Inr (batch_chunks, all_transcriptions), s)"
| "batch_loop T pipe (chunk # chunks) batch_chunks all_transcriptions s =
     (let batch_chunks = batch_chunks @ [chunk]
      in if int (length batch_chunks) = batch_size T then
           (case transcribe_batch pipe batch_chunks s of
              (Inl e, s') \<Rightarrow> (Inl e, s')
            | (Inr transcriptions, s') \<Rightarrow>
                batch_loop T pipe chunks [] (all_transcriptions @ transcriptions) s')
         else batch_loop T pipe chunks batch_chunks all_transcriptions s)"

text \<open>
  A pipeline that also records every list of chunks it is called with, in the order of the
  calls: the observer of the calls that \<open>transcribe_audio\<close> makes.
\<close>

definition logged :: "('a, 's) pipeline \<Rightarrow> ('a, 's \<times> 'a list list list) pipeline" where
  "logged pipe audio_chunks st =
     (case pipe audio_chunks (fst st) of
        (r, s') \<Rightarrow> (r, (s', snd st @ [audio_chunks])))"


text \<open>Two pipelines for the examples: one that answers every chunk and counts its calls,
  and one that raises on its second call.\<close>

definition stub_fragment :: "nat list \<Rightarrow> string" where
  "stub_fragment chunk =
     (if chunk = [] then ''-'' else if hd chunk = 5 then ''a'' else if hd chunk = 7 then ''b''
      else ''t'')"

definition counting_pipe :: "(nat, nat) pipeline" where
  "counting_pipe audio_chunks s = (Some (map stub_fragment audio_chunks), Suc s)"

definition failing_pipe :: "(nat, nat) pipeline" where
  "failing_pipe audio_chunks s =
     (if s = 1 then None else Some (map stub_fragment audio_chunks), Suc s)"

text \<open>A waveform for the examples: one second of 5, one second of 7, and one sample 3.\<close>

definition three_chunks :: "nat list" where
  "three_chunks = replicate 16000 5 @ replicate 16000 7 @ [3]"

text \<open>A decoder for the examples: every file decodes to the given waveform.\<close>

definition constant_decoder :: "'a list \<Rightarrow> 'a decoder" where
  "constant_decoder audio_data audio_file = Some audio_data"

section \<open>Properties\<close>

subsection \<open>Unfolding the generator\<close>

lemmas cwf_induct = chunk_windows_from.raw_induct[rotated 1, consumes 1, case_names step]

lemmas for_loop_induct = for_loop.raw_induct[rotated 1, consumes 1, case_names step]

lemma cwf_Stopped: "chunk_windows_from T a Stopped = Some []"
  by (subst chunk_windows_from.simps) simp

lemma cwf_At_done: "\<not> start < int (length a) \<Longrightarrow> chunk_windows_from T a (At start) = Some []"
  by (subst chunk_windows_from.simps) simp

lemma cwf_At_last:
  "start < int (length a) \<Longrightarrow> int (length a) \<le> start + chunk_length_samples T \<Longrightarrow>
   chunk_windows_from T a (At start) = Some [(start, int (length a))]"
  by (subst chunk_windows_from.simps) (simp add: cwf_Stopped min_def)

lemma cwf_At_more:
  "start < int (length a) \<Longrightarrow> start + chunk_length_samples T < int (length a) \<Longrightarrow>
   chunk_windows_from T a (At start) =
     chunk_windows_from T a (At (start + (chunk_length_samples T - overlap_samples T)))
       \<bind> (\<lambda>ws. Some ((start, start + chunk_length_samples T) # ws))"
  by (subst chunk_windows_from.simps) (simp add: min_def)

lemma for_loop_finite:
  "chunk_windows_from T a g = Some ws \<Longrightarrow>
   for_loop T pipe a g bc ats s = Some (batch_loop T pipe (map (chunk_of a) ws) bc ats s)"
proof (induction ws arbitrary: g bc ats s)
  case Nil
  then have "chunk_next T a g = None"
    by (subst (asm) chunk_windows_from.simps) (auto split: option.splits bind_splits)
  then show ?case by (subst for_loop.simps) simp
next
  case (Cons w ws)
  from Cons.prems obtain g' where nxt: "chunk_next T a g = Some (w, g')"
    and rest: "chunk_windows_from T a g' = Some ws"
    by (subst (asm) chunk_windows_from.simps) (auto split: option.splits bind_splits)
  show ?case
    by (subst for_loop.simps)
       (simp add: nxt Let_def Cons.IH[OF rest] split: prod.splits sum.splits)
qed

subsection \<open>The window sizes\<close>










subsection \<open>Failures of the decoder and of the pipeline\<close>

lemma windows_two_chunks:
  "chunk_windows_from (init 1 0 1) (replicate 16001 (0::nat)) (At 0)
     = Some [(0, 16000), (16000, 16001)]"
  by (simp add: init_def SAMPLE_RATE_def cwf_At_more cwf_At_last chunk_length_samples_def
      overlap_samples_def py_int_def)

text \<open>
  C3: the claim is that a failure of \<open>load_audio\<close> or of \<open>transcribe_batch\<close> leaves
  \<open>transcribe_audio\<close> as the same error. In the code no transcript is returned, but the
  error that reaches the caller is the \<open>TypeError\<close> of the handler's \<open>logging.error()\<close>:
  so it is when the decoder raises, whatever the configuration and the pipeline, and so it
  is when the pipeline raises on the second of two batches (one second of chunk length, no
  overlap, batches of one chunk, 16001 samples). On no input at all does
  \<open>transcribe_audio\<close> end with the error of \<open>load_audio\<close> or of \<open>transcribe_batch\<close>.
\<close>

theorem transcribe_audio_raises_TypeError:
  "transcribe_audio T (\<lambda>audio_file. None) pipe audio_file s = Some (Inl TypeError, s) \<and>
   transcribe_audio (init 1 0 1) (\<lambda>audio_file. Some (replicate 16001 0)) failing_pipe audio_file 0
     = Some (Inl TypeError, 2) \<and>
   transcribe_audio T librosa_load pipe audio_file s \<noteq> Some (Inl AudioLoadError, s') \<and>
   transcribe_audio T librosa_load pipe audio_file s \<noteq> Some (Inl InferenceError, s')"
proof -
  have "transcribe_audio (init 1 0 1) (\<lambda>audio_file. Some (replicate 16001 0)) failing_pipe
          audio_file 0 = Some (Inl TypeError, 2)"
    using windows_two_chunks
    by (simp add: transcribe_audio_def transcribe_body_def load_audio_def for_loop_finite Let_def
        transcribe_batch_def failing_pipe_def init_def)
  moreover have "transcribe_audio T (\<lambda>audio_file. None) pipe audio_file s = Some (Inl TypeError, s)"
    by (simp add: transcribe_audio_def transcribe_body_def load_audio_def)
  moreover have "transcribe_audio T librosa_load pipe audio_file s \<noteq> Some (Inl e, s')"
    if "e \<noteq> TypeError" for e
    using that by (auto simp: transcribe_audio_def split: option.splits sum.splits)
  ultimately show ?thesis by simp
qed

subsection \<open>The generator and the relation of its loop\<close>

lemma cwf_run:
  "chunk_windows_from T a (At start) = Some ws \<Longrightarrow>
   windows_run (chunk_length_samples T) (overlap_samples T) (int (length a)) start ws"
proof (induction ws arbitrary: start)
  case Nil
  then show ?case
    by (cases "start < int (length a)"; cases "start + chunk_length_samples T < int (length a)")
       (auto simp: cwf_At_done cwf_At_last cwf_At_more intro: wr_done split: bind_splits)
next
  case (Cons w ws)
  show ?case
  proof (cases "start < int (length a)")
    case False
    with Cons.prems show ?thesis by (simp add: cwf_At_done)
  next
    case lt: True
    show ?thesis
    proof (cases "start + chunk_length_samples T < int (length a)")
      case False
      with lt Cons.prems show ?thesis by (auto simp: cwf_At_last intro: wr_last)
    next
      case True
      with lt Cons.prems have
        "chunk_windows_from T a (At (start + (chunk_length_samples T - overlap_samples T))) = Some ws"
        and "w = (start, start + chunk_length_samples T)"
        by (auto simp: cwf_At_more split: bind_splits)
      with Cons.IH lt True show ?thesis by (auto intro: wr_more)
    qed
  qed
qed

lemma cwf_terminates:
  assumes "1 \<le> chunk_length_samples T - overlap_samples T"
  shows "\<exists>ws. chunk_windows_from T a (At start) = Some ws"
proof (induction "nat (int (length a) - start)" arbitrary: start rule: less_induct)
  case less
  consider (fin) "\<not> start < int (length a)"
    | (last) "start < int (length a)" "int (length a) \<le> start + chunk_length_samples T"
    | (more) "start < int (length a)" "start + chunk_length_samples T < int (length a)"
    by linarith
  then show ?case
  proof cases
    case fin
    then show ?thesis by (simp add: cwf_At_done)
  next
    case last
    then show ?thesis by (simp add: cwf_At_last)
  next
    case more
    have "nat (int (length a) - (start + (chunk_length_samples T - overlap_samples T)))
            < nat (int (length a) - start)"
      using assms more by linarith
    from less[OF this] obtain ws where
      "chunk_windows_from T a (At (start + (chunk_length_samples T - overlap_samples T))) = Some ws"
      by blast
    with more show ?thesis by (simp add: cwf_At_more)
  qed
qed

lemma cwf_Some_not_stuck:
  "chunk_windows_from T a g = Some ws \<Longrightarrow>
   chunk_length_samples T - overlap_samples T \<le> 0 \<Longrightarrow>
   chunk_length_samples T < int (length a) \<Longrightarrow> a \<noteq> [] \<Longrightarrow>
   g = At start \<Longrightarrow> start \<le> 0 \<Longrightarrow> False"
proof (induction arbitrary: start rule: cwf_induct)
  case (step cwf T a g ws)
  let ?next = "start + (chunk_length_samples T - overlap_samples T)"
  from step.prems have lt: "start < int (length a)" "start + chunk_length_samples T < int (length a)"
    by (cases a; simp)+
  with step.prems have "chunk_next T a g = Some ((start, start + chunk_length_samples T), At ?next)"
    by (simp add: min_def)
  with step.hyps obtain ws' where "cwf T a (At ?next) = Some ws'"
    by (auto split: bind_splits)
  moreover from step.prems have "?next \<le> 0" by simp
  ultimately show False
    using step.prems by (intro step.IH[of T a "At ?next" ws' ?next]) simp_all
qed

lemma cwf_diverges:
  assumes "chunk_length_samples T - overlap_samples T \<le> 0"
    and "chunk_length_samples T < int (length a)" and "a \<noteq> []" and "start \<le> 0"
  shows "chunk_windows_from T a (At start) = None"
proof (cases "chunk_windows_from T a (At start)")
  case (Some ws)
  from cwf_Some_not_stuck[OF Some assms(1-3) refl assms(4)] show ?thesis ..
qed simp

lemma for_loop_Some_not_stuck:
  "for_loop T pipe a g bc ats s = Some r \<Longrightarrow>
   chunk_length_samples T - overlap_samples T \<le> 0 \<Longrightarrow>
   chunk_length_samples T < int (length a) \<Longrightarrow> a \<noteq> [] \<Longrightarrow>
   \<forall>cs s. fst (pipe cs s) \<noteq> None \<Longrightarrow>
   g = At start \<Longrightarrow> start \<le> 0 \<Longrightarrow> False"
proof (induction arbitrary: start rule: for_loop_induct)
  case (step loop T pipe a g bc ats s r)
  let ?next = "start + (chunk_length_samples T - overlap_samples T)"
  let ?w = "(start, start + chunk_length_samples T)"
  let ?bc = "bc @ [chunk_of a ?w]"
  from step.prems have lt: "start < int (length a)" "start + chunk_length_samples T < int (length a)"
    by (cases a; simp)+
  with step.prems have nxt: "chunk_next T a g = Some (?w, At ?next)"
    by (simp add: min_def)
  from step.prems have le: "?next \<le> 0" by simp
  show False
  proof (cases "int (length ?bc) = batch_size T")
    case False
    with nxt step.hyps have "loop T pipe a (At ?next) ?bc ats s = Some r"
      by (simp add: Let_def)
    then show False
      using step.prems le
      by (intro step.IH[of T pipe a "At ?next" ?bc ats s r ?next]) simp_all
  next
    case True
    obtain ts s' where p: "pipe ?bc s = (Some ts, s')"
      using step.prems(4) by (metis not_None_eq prod.collapse)
    with True nxt step.hyps have "loop T pipe a (At ?next) [] (ats @ ts) s' = Some r"
      by (simp add: Let_def transcribe_batch_def)
    then show False
      using step.prems le
      by (intro step.IH[of T pipe a "At ?next" "[]" "ats @ ts" s' r ?next]) simp_all
  qed
qed

lemma for_loop_diverges:
  assumes "chunk_length_samples T - overlap_samples T \<le> 0"
    and "chunk_length_samples T < int (length a)" and "a \<noteq> []"
    and "\<forall>cs s. fst (pipe cs s) \<noteq> None" and "start \<le> 0"
  shows "for_loop T pipe a (At start) bc ats s = None"
proof (cases "for_loop T pipe a (At start) bc ats s")
  case (Some r)
  from for_loop_Some_not_stuck[OF Some assms(1-4) refl assms(5)] show ?thesis ..
qed simp

subsection \<open>Windows of a run\<close>

lemma py_slice_in_range:
  "0 \<le> i \<Longrightarrow> i \<le> j \<Longrightarrow> j \<le> int (length xs) \<Longrightarrow>
   py_slice xs i j = take (nat (j - i)) (drop (nat i) xs)"
  by (simp add: py_slice_def Let_def)

lemma py_slice_whole: "py_slice xs 0 (int (length xs)) = xs"
  by (simp add: py_slice_def)

lemma length_py_slice_in_range:
  "0 \<le> i \<Longrightarrow> i \<le> j \<Longrightarrow> j \<le> int (length xs) \<Longrightarrow> int (length (py_slice xs i j)) = j - i"
  by (simp add: py_slice_in_range)

lemma run_hd: "windows_run cls ovs n start ws \<Longrightarrow> ws \<noteq> [] \<Longrightarrow> fst (hd ws) = start"
  by (induction rule: windows_run.induct) simp_all

lemma run_valid_ends:
  "windows_run cls ovs n start ws \<Longrightarrow> 0 \<le> ovs \<Longrightarrow> start < n \<Longrightarrow>
   ws \<noteq> [] \<and> snd (last ws) = n"
  by (induction rule: windows_run.induct) auto

lemma run_chain:
  "windows_run cls ovs n start ws \<Longrightarrow> Suc i < length ws \<Longrightarrow>
   snd (ws ! i) = fst (ws ! i) + cls \<and> fst (ws ! Suc i) = snd (ws ! i) - ovs"
proof (induction arbitrary: i rule: windows_run.induct)
  case (wr_more start ws)
  show ?case
  proof (cases i)
    case 0
    with wr_more.prems have "ws \<noteq> []" by auto
    with run_hd[OF wr_more.hyps(3)] have "fst (ws ! 0) = start + (cls - ovs)"
      by (simp add: hd_conv_nth)
    with 0 show ?thesis by simp
  next
    case (Suc j)
    with wr_more.prems wr_more.IH[of j] show ?thesis by simp
  qed
qed simp_all

lemma run_windows_in_range:
  "windows_run cls ovs n start ws \<Longrightarrow> 1 \<le> cls \<Longrightarrow> 1 \<le> cls - ovs \<Longrightarrow> 0 \<le> start \<Longrightarrow>
   w \<in> set ws \<Longrightarrow> 0 \<le> fst w \<and> fst w < snd w \<and> snd w \<le> n \<and> snd w - fst w \<le> cls"
  by (induction rule: windows_run.induct) auto

lemma run_covers:
  "windows_run cls ovs n start ws \<Longrightarrow> 0 \<le> ovs \<Longrightarrow> start \<le> k \<Longrightarrow> k < n \<Longrightarrow>
   \<exists>w\<in>set ws. fst w \<le> k \<and> k < snd w"
proof (induction rule: windows_run.induct)
  case (wr_more start ws)
  show ?case
  proof (cases "k < start + cls")
    case True
    with wr_more.prems show ?thesis by auto
  next
    case False
    with wr_more.prems wr_more.IH show ?thesis by auto
  qed
qed auto

lemma ceiling_step:
  fixes q s :: int
  assumes "0 < s"
  shows "\<lceil>of_int q / of_int s :: rat\<rceil> = \<lceil>of_int (q - s) / of_int s :: rat\<rceil> + 1"
proof -
  have "(of_int q / of_int s :: rat) = of_int (q - s) / of_int s + 1"
    using assms by (simp add: field_simps)
  then show ?thesis by simp
qed

lemma ceiling_one:
  fixes x s :: int
  assumes "0 < x" "x \<le> s"
  shows "\<lceil>of_int x / of_int s :: rat\<rceil> = 1"
  using assms by (simp add: ceiling_eq_iff field_simps)

lemma run_count:
  "windows_run cls ovs n start ws \<Longrightarrow> 0 \<le> ovs \<Longrightarrow> 1 \<le> cls - ovs \<Longrightarrow> start < n \<Longrightarrow>
   int (length ws) =
     (if n - start \<le> cls then 1 else \<lceil>of_int (n - start - ovs) / of_int (cls - ovs) :: rat\<rceil>)"
proof (induction rule: windows_run.induct)
  case (wr_more start ws)
  let ?s = "cls - ovs"
  let ?q = "n - start - ovs"
  from wr_more have lt: "start + ?s < n" by simp
  have step: "\<lceil>of_int ?q / of_int ?s :: rat\<rceil> = \<lceil>of_int (?q - ?s) / of_int ?s :: rat\<rceil> + 1"
    using wr_more.prems by (intro ceiling_step) simp
  show ?case
  proof (cases "n - (start + ?s) \<le> cls")
    case True
    with wr_more.IH wr_more.prems lt have "int (length ws) = 1" by simp
    moreover have "\<lceil>of_int (?q - ?s) / of_int ?s :: rat\<rceil> = 1"
      using True wr_more.hyps by (intro ceiling_one) simp_all
    ultimately show ?thesis using step wr_more.hyps by simp
  next
    case False
    with wr_more.IH wr_more.prems lt
    have "int (length ws) = \<lceil>of_int (n - (start + ?s) - ovs) / of_int ?s :: rat\<rceil>" by simp
    moreover have "n - (start + ?s) - ovs = ?q - ?s" by simp
    ultimately show ?thesis using step wr_more.hyps by simp
  qed
qed simp_all

lemma run_reconstruct:
  fixes a :: "'a list"
  shows "windows_run cls ovs (int (length a)) start ws \<Longrightarrow> 0 \<le> ovs \<Longrightarrow> 1 \<le> cls - ovs \<Longrightarrow>
   0 \<le> start \<Longrightarrow> start < int (length a) \<Longrightarrow> int d \<le> cls \<Longrightarrow>
   drop d (chunk_of a (hd ws)) @ concat (map (drop (nat ovs) \<circ> chunk_of a) (tl ws))
     = drop (nat start + d) a"
proof (induction arbitrary: d rule: windows_run.induct)
  case (wr_done start)
  then show ?case by simp
next
  case (wr_last start)
  then show ?case by (simp add: chunk_of_def py_slice_in_range add.commute)
next
  case (wr_more start ws)
  let ?s = "start + (cls - ovs)"
  from wr_more.hyps wr_more.prems have lt: "?s < int (length a)" "0 \<le> ?s" by simp_all
  from run_valid_ends[OF wr_more.hyps(3) wr_more.prems(1) lt(1)] have ne: "ws \<noteq> []" by simp
  have "concat (map (drop (nat ovs) \<circ> chunk_of a) ws)
          = drop (nat ovs) (chunk_of a (hd ws)) @ concat (map (drop (nat ovs) \<circ> chunk_of a) (tl ws))"
    using ne by (cases ws) simp_all
  also have "\<dots> = drop (nat ?s + nat ovs) a"
    using wr_more.prems lt by (intro wr_more.IH) simp_all
  also have "nat ?s + nat ovs = nat (start + cls)"
    using wr_more.prems by simp
  finally have rest: "concat (map (drop (nat ovs) \<circ> chunk_of a) ws) = drop (nat (start + cls)) a" .
  have first: "chunk_of a (start, start + cls) = take (nat cls) (drop (nat start) a)"
    using wr_more.hyps wr_more.prems by (simp add: chunk_of_def py_slice_in_range)
  have A: "drop d (take (nat cls) (drop (nat start) a)) = take (nat cls - d) (drop (nat start + d) a)"
    by (simp add: drop_take add.commute)
  have B: "drop (nat (start + cls)) a = drop (nat cls - d) (drop (nat start + d) a)"
  proof -
    have "nat (start + cls) = (nat cls - d) + (nat start + d)"
      using wr_more.prems by linarith
    then show ?thesis by (simp add: add.commute)
  qed
  have "drop d (chunk_of a (hd ((start, start + cls) # ws)))
          @ concat (map (drop (nat ovs) \<circ> chunk_of a) (tl ((start, start + cls) # ws)))
        = take (nat cls - d) (drop (nat start + d) a)
          @ drop (nat cls - d) (drop (nat start + d) a)"
    unfolding list.sel first rest A B ..
  also have "\<dots> = drop (nat start + d) a"
    by (rule append_take_drop_id)
  finally show ?case .
qed

subsection \<open>What \<open>chunk_audio\<close> yields\<close>

lemma chunk_audio_Some:
  "chunk_windows T W = Some ws \<Longrightarrow> chunk_audio T W = Some (map (chunk_of W) ws)"
  by (simp add: chunk_audio_def)

lemma chunk_windows_empty: "chunk_windows T [] = Some []"
  by (simp add: chunk_windows_def cwf_At_done)

text \<open>
  C1: for a valid configuration (\<open>overlap_samples \<ge> 0\<close> and a stride
  \<open>chunk_length_samples - overlap_samples \<ge> 1\<close>) \<open>chunk_audio\<close> stops, and its windows
  \<open>(start, end)\<close> cover the waveform once, overlaps apart: for a waveform that is not empty
  the first window starts at 0 and the last one ends at \<open>len(W)\<close>; every window but the
  last is a full one and the next one starts at its end minus \<open>overlap_samples\<close>; every
  window lies inside the waveform and its chunk is that part of the waveform; every sample
  index lies in a window; the first chunk followed by the later chunks without their first
  \<open>overlap_samples\<close> samples is the waveform again. With 70 samples, a chunk length of 30
  and an overlap of 10 the windows are \<open>[0:30]\<close>, \<open>[20:50]\<close>, \<open>[40:70]\<close>.
\<close>

theorem chunk_audio_covers_waveform:
  fixes W :: "'a list"
  assumes ov: "0 \<le> overlap_samples T"
    and stride: "1 \<le> chunk_length_samples T - overlap_samples T"
  shows "\<exists>ws. chunk_windows T W = Some ws \<and> chunk_audio T W = Some (map (chunk_of W) ws)
      \<and> (W \<noteq> [] \<longrightarrow> ws \<noteq> [] \<and> fst (hd ws) = 0 \<and> snd (last ws) = int (length W))
      \<and> (\<forall>i. Suc i < length ws \<longrightarrow>
            snd (ws ! i) = fst (ws ! i) + chunk_length_samples T
            \<and> fst (ws ! Suc i) = snd (ws ! i) - overlap_samples T)
      \<and> (\<forall>i<length ws. 0 \<le> fst (ws ! i) \<and> fst (ws ! i) < snd (ws ! i)
            \<and> snd (ws ! i) \<le> int (length W)
            \<and> chunk_of W (ws ! i)
                = take (nat (snd (ws ! i) - fst (ws ! i))) (drop (nat (fst (ws ! i))) W))
      \<and> (\<forall>k<length W. \<exists>i<length ws. fst (ws ! i) \<le> int k \<and> int k < snd (ws ! i))
      \<and> concat (case map (chunk_of W) ws of [] \<Rightarrow> []
                 | c # cs \<Rightarrow> c # map (drop (nat (overlap_samples T))) cs) = W
      \<and> (length W = 70 \<and> chunk_length_samples T = 30 \<and> overlap_samples T = 10 \<longrightarrow>
            ws = [(0, 30), (20, 50), (40, 70)])"
proof -
  let ?cls = "chunk_length_samples T" and ?ovs = "overlap_samples T" and ?n = "int (length W)"
  from cwf_terminates[OF stride] obtain ws where ws: "chunk_windows_from T W (At 0) = Some ws"
    by blast
  then have cw: "chunk_windows T W = Some ws" by (simp add: chunk_windows_def)
  from cwf_run[OF ws] have run: "windows_run ?cls ?ovs ?n 0 ws" .
  have cls: "1 \<le> ?cls" using ov stride by simp
  have ends: "W \<noteq> [] \<longrightarrow> ws \<noteq> [] \<and> fst (hd ws) = 0 \<and> snd (last ws) = ?n"
    using run_valid_ends[OF run ov] run_hd[OF run] by simp
  have chain: "\<forall>i. Suc i < length ws \<longrightarrow>
      snd (ws ! i) = fst (ws ! i) + ?cls \<and> fst (ws ! Suc i) = snd (ws ! i) - ?ovs"
    using run_chain[OF run] by blast
  have range: "\<forall>i<length ws. 0 \<le> fst (ws ! i) \<and> fst (ws ! i) < snd (ws ! i)
      \<and> snd (ws ! i) \<le> ?n
      \<and> chunk_of W (ws ! i) = take (nat (snd (ws ! i) - fst (ws ! i))) (drop (nat (fst (ws ! i))) W)"
  proof (intro allI impI)
    fix i assume "i < length ws"
    then have "ws ! i \<in> set ws" by simp
    from run_windows_in_range[OF run cls stride _ this]
    have r: "0 \<le> fst (ws ! i)" "fst (ws ! i) < snd (ws ! i)" "snd (ws ! i) \<le> ?n" by simp_all
    then show "0 \<le> fst (ws ! i) \<and> fst (ws ! i) < snd (ws ! i) \<and> snd (ws ! i) \<le> ?n
      \<and> chunk_of W (ws ! i) = take (nat (snd (ws ! i) - fst (ws ! i))) (drop (nat (fst (ws ! i))) W)"
      by (simp add: chunk_of_def py_slice_in_range)
  qed
  have cover: "\<forall>k<length W. \<exists>i<length ws. fst (ws ! i) \<le> int k \<and> int k < snd (ws ! i)"
  proof (intro allI impI)
    fix k assume "k < length W"
    with run_covers[OF run ov, of "int k"] obtain w where
      "w \<in> set ws" "fst w \<le> int k" "int k < snd w" by auto
    then show "\<exists>i<length ws. fst (ws ! i) \<le> int k \<and> int k < snd (ws ! i)"
      by (auto simp: in_set_conv_nth)
  qed
  have recon: "concat (case map (chunk_of W) ws of [] \<Rightarrow> []
                 | c # cs \<Rightarrow> c # map (drop (nat ?ovs)) cs) = W"
  proof (cases "W = []")
    case True
    with cw have "ws = []" by (simp add: chunk_windows_empty)
    with True show ?thesis by simp
  next
    case False
    with ends obtain w ws' where eq: "ws = w # ws'" by (cases ws) auto
    from False have "0 < ?n" by simp
    from run_reconstruct[OF run ov stride _ this, of 0] cls
    have "chunk_of W (hd ws) @ concat (map (drop (nat ?ovs) \<circ> chunk_of W) (tl ws)) = W"
      by simp
    with eq show ?thesis by simp
  qed
  have example: "length W = 70 \<and> ?cls = 30 \<and> ?ovs = 10 \<longrightarrow> ws = [(0, 30), (20, 50), (40, 70)]"
  proof
    assume a: "length W = 70 \<and> ?cls = 30 \<and> ?ovs = 10"
    then have "chunk_windows_from T W (At 0) = Some [(0, 30), (20, 50), (40, 70)]"
      by (simp add: cwf_At_more cwf_At_last)
    with ws show "ws = [(0, 30), (20, 50), (40, 70)]" by simp
  qed
  from cw chunk_audio_Some[OF cw] ends chain range cover recon example
  show ?thesis by blast
qed

theorem chunk_audio_covers_waveform_witness:
  "0 \<le> overlap_samples (init (3 / 1600) (1 / 1600) 8)
   \<and> 1 \<le> chunk_length_samples (init (3 / 1600) (1 / 1600) 8)
          - overlap_samples (init (3 / 1600) (1 / 1600) 8)
   \<and> chunk_windows (init (3 / 1600) (1 / 1600) 8) [0..<70] = Some [(0, 30), (20, 50), (40, 70)]
   \<and> chunk_audio (init (3 / 1600) (1 / 1600) 8) [0..<70] = Some [[0..<30], [20..<50], [40..<70]]"
proof -
  let ?T = "init (3 / 1600) (1 / 1600) 8"
  have c: "chunk_length_samples ?T = 30" and o: "overlap_samples ?T = 10"
    by (simp_all add: chunk_length_samples_def overlap_samples_def init_def SAMPLE_RATE_def py_int_def)
  have h1: "0 \<le> overlap_samples ?T" and h2: "1 \<le> chunk_length_samples ?T - overlap_samples ?T"
    by (simp_all add: c o)
  from chunk_audio_covers_waveform[OF h1 h2, of "[0..<70]"] c o
  obtain ws where "chunk_windows ?T [0..<70] = Some ws"
    "chunk_audio ?T [0..<70] = Some (map (chunk_of [0..<70]) ws)"
    "ws = [(0, 30), (20, 50), (40, 70)]"
    by auto
  moreover have "map (chunk_of [0..<70]) [(0, 30), (20, 50), (40, 70)] = [[0..<30], [20..<50], [40..<70]]"
    by (simp add: chunk_of_def py_slice_def take_upt drop_upt)
  ultimately show ?thesis using h1 h2 by simp
qed

text \<open>
  C2: for a valid configuration \<open>chunk_audio\<close> yields no chunk for an empty waveform
  (and raises nothing), one chunk when \<open>0 < len(W) \<le> chunk_length_samples\<close>, and
  otherwise \<open>ceil((len(W) - overlap_samples) / stride)\<close> chunks.
\<close>

theorem chunk_audio_count:
  fixes W :: "'a list"
  assumes ov: "0 \<le> overlap_samples T"
    and stride: "1 \<le> chunk_length_samples T - overlap_samples T"
  shows "\<exists>chunks. chunk_audio T W = Some chunks \<and>
     int (length chunks) =
       (if length W = 0 then 0
        else if int (length W) \<le> chunk_length_samples T then 1
        else \<lceil>of_int (int (length W) - overlap_samples T)
               / of_int (chunk_length_samples T - overlap_samples T) :: rat\<rceil>)"
proof (cases "W = []")
  case True
  then show ?thesis by (simp add: chunk_audio_Some[OF chunk_windows_empty])
next
  case False
  from cwf_terminates[OF stride] obtain ws where ws: "chunk_windows_from T W (At 0) = Some ws"
    by blast
  then have cw: "chunk_windows T W = Some ws" by (simp add: chunk_windows_def)
  from False have "0 < int (length W)" by simp
  from run_count[OF cwf_run[OF ws] ov stride this] False
  have "int (length (map (chunk_of W) ws)) =
       (if length W = 0 then 0
        else if int (length W) \<le> chunk_length_samples T then 1
        else \<lceil>of_int (int (length W) - overlap_samples T)
               / of_int (chunk_length_samples T - overlap_samples T) :: rat\<rceil>)"
    by simp
  with chunk_audio_Some[OF cw] show ?thesis by blast
qed

lemma chunk_count_default: "chunk_length_samples (init 30 2 8) = 480000 \<and> overlap_samples (init 30 2 8) = 32000"
  by (simp add: chunk_length_samples_def overlap_samples_def init_def SAMPLE_RATE_def py_int_def)

theorem chunk_audio_count_witness:
  "0 \<le> overlap_samples (init 30 2 8)
   \<and> 1 \<le> chunk_length_samples (init 30 2 8) - overlap_samples (init 30 2 8)
   \<and> map_option length (chunk_audio (init 30 2 8) (replicate 1000000 (0::nat))) = Some 3
   \<and> map_option length (chunk_audio (init 30 2 8) [0::nat]) = Some 1
   \<and> map_option length (chunk_audio (init 30 2 8) ([]::nat list)) = Some 0"
proof -
  let ?T = "init 30 2 8"
  have h1: "0 \<le> overlap_samples ?T" and h2: "1 \<le> chunk_length_samples ?T - overlap_samples ?T"
    by (simp_all add: chunk_count_default)
  have c: "\<lceil>968000 / 448000 :: rat\<rceil> = 3"
    by (simp add: ceiling_eq_iff)
  from chunk_audio_count[OF h1 h2, of "replicate 1000000 (0::nat)"]
    chunk_audio_count[OF h1 h2, of "[0::nat]"]
    chunk_audio_count[OF h1 h2, of "[]::nat list"]
  show ?thesis
    using h1 h2 c by (auto simp: chunk_count_default)
qed

text \<open>
  C10, as stated, fails: the claim is that every chunk is non-empty whenever the stride is
  at least 1. A chunk length of 0 s with an overlap of \<open>-1\<close> s has the stride 16000, and
  on a waveform of one sample \<open>chunk_audio\<close> yields one chunk, the empty slice
  \<open>audio_data[0:0]\<close>.
\<close>

theorem chunk_lengths_counterexample:
  "1 \<le> chunk_length_samples (init 0 (- 1) 8) - overlap_samples (init 0 (- 1) 8)
   \<and> chunk_audio (init 0 (- 1) 8) [0::nat] = Some [[]]"
proof -
  have c: "chunk_length_samples (init 0 (- 1) 8) = 0" "overlap_samples (init 0 (- 1) 8) = - 16000"
    by (simp_all add: chunk_length_samples_def overlap_samples_def init_def SAMPLE_RATE_def py_int_def)
  have "chunk_windows (init 0 (- 1) 8) [0::nat] = Some [(0, 0)]"
    by (simp add: chunk_windows_def cwf_At_more cwf_At_done c)
  from chunk_audio_Some[OF this] show ?thesis
    by (simp add: c chunk_of_def py_slice_def)
qed

text \<open>
  C10, amended: for every waveform and every configuration with
  \<open>chunk_length_samples \<ge> 1\<close> and a stride of at least 1 (so for every configuration
  with a stride of at least 1 whose overlap is not negative), every chunk that
  \<open>chunk_audio\<close> yields has at least one sample and at most \<open>chunk_length_samples\<close>, and
  every chunk but the last has exactly \<open>chunk_length_samples\<close>.
\<close>

theorem chunk_lengths:
  fixes W :: "'a list"
  assumes cls: "1 \<le> chunk_length_samples T"
    and stride: "1 \<le> chunk_length_samples T - overlap_samples T"
  shows "\<exists>chunks. chunk_audio T W = Some chunks \<and>
     (\<forall>i<length chunks. 1 \<le> length (chunks ! i)
        \<and> int (length (chunks ! i)) \<le> chunk_length_samples T
        \<and> (Suc i < length chunks \<longrightarrow> int (length (chunks ! i)) = chunk_length_samples T))"
proof -
  from cwf_terminates[OF stride] obtain ws where ws: "chunk_windows_from T W (At 0) = Some ws"
    by blast
  then have cw: "chunk_windows T W = Some ws" by (simp add: chunk_windows_def)
  note run = cwf_run[OF ws]
  have "1 \<le> length (map (chunk_of W) ws ! i)
        \<and> int (length (map (chunk_of W) ws ! i)) \<le> chunk_length_samples T
        \<and> (Suc i < length (map (chunk_of W) ws) \<longrightarrow>
             int (length (map (chunk_of W) ws ! i)) = chunk_length_samples T)"
    if i: "i < length (map (chunk_of W) ws)" for i
  proof -
    from i have mem: "ws ! i \<in> set ws" by simp
    from run_windows_in_range[OF run cls stride _ mem]
    have r: "0 \<le> fst (ws ! i)" "fst (ws ! i) < snd (ws ! i)" "snd (ws ! i) \<le> int (length W)"
      "snd (ws ! i) - fst (ws ! i) \<le> chunk_length_samples T"
      by simp_all
    then have len: "int (length (chunk_of W (ws ! i))) = snd (ws ! i) - fst (ws ! i)"
      by (simp add: chunk_of_def length_py_slice_in_range)
    have "snd (ws ! i) - fst (ws ! i) = chunk_length_samples T" if "Suc i < length ws"
      using run_chain[OF run that] by simp
    with i r len show ?thesis by simp
  qed
  with chunk_audio_Some[OF cw] show ?thesis by blast
qed

theorem chunk_lengths_witness:
  "1 \<le> chunk_length_samples (init 1 0 1)
   \<and> 1 \<le> chunk_length_samples (init 1 0 1) - overlap_samples (init 1 0 1)
   \<and> map_option (map length) (chunk_audio (init 1 0 1) (replicate 16001 (0::nat)))
       = Some [16000, 1]"
proof -
  let ?T = "init 1 0 1"
  have c: "chunk_length_samples ?T = 16000" "overlap_samples ?T = 0"
    by (simp_all add: chunk_length_samples_def overlap_samples_def init_def SAMPLE_RATE_def py_int_def)
  have h1: "1 \<le> chunk_length_samples ?T" and h2: "1 \<le> chunk_length_samples ?T - overlap_samples ?T"
    by (simp_all add: c)
  have cw: "chunk_windows ?T (replicate 16001 (0::nat)) = Some [(0, 16000), (16000, 16001)]"
    using windows_two_chunks by (simp add: chunk_windows_def)
  from chunk_lengths[OF h1 h2, of "replicate 16001 (0::nat)"] chunk_audio_Some[OF cw]
  show ?thesis using h1 h2
    by (simp add: chunk_of_def py_slice_def)
qed

subsection \<open>Termination\<close>

lemma transcribe_audio_finite:
  assumes "chunk_windows_from T W (At 0) = Some ws" and "librosa_load audio_file = Some W"
  shows "transcribe_audio T librosa_load pipe audio_file s \<noteq> None"
  using assms
  by (simp add: transcribe_audio_def transcribe_body_def load_audio_def for_loop_finite
      split: prod.splits sum.splits option.splits)

lemma transcribe_audio_load_fails:
  "librosa_load audio_file = None \<Longrightarrow>
   transcribe_audio T librosa_load pipe audio_file s = Some (Inl TypeError, s)"
  by (simp add: transcribe_audio_def transcribe_body_def load_audio_def)

lemma init_fields:
  "chunk_length_seconds (init cl ov bs) = cl" "overlap_seconds (init cl ov bs) = ov"
  "batch_size (init cl ov bs) = bs" "sample_rate (init cl ov bs) = SAMPLE_RATE"
  by (simp_all add: init_def)

lemma stride_zero: "chunk_length_samples (init 1 1 8) = 16000 \<and> overlap_samples (init 1 1 8) = 16000"
  by (simp add: chunk_length_samples_def overlap_samples_def init_def SAMPLE_RATE_def py_int_def)

lemma counting_pipe_answers: "\<forall>cs s. fst (counting_pipe cs s) \<noteq> None"
  by (simp add: counting_pipe_def)

lemma transcribe_audio_returns:
  assumes stride: "1 \<le> chunk_length_samples T - overlap_samples T"
  shows "\<exists>r. transcribe_audio T librosa_load pipe audio_file s = Some r"
proof (cases "librosa_load audio_file")
  case None
  then show ?thesis by (simp add: transcribe_audio_load_fails)
next
  case (Some V)
  from cwf_terminates[OF stride] obtain vs where "chunk_windows_from T V (At 0) = Some vs"
    by blast
  from transcribe_audio_finite[of T V vs librosa_load audio_file pipe s, OF this Some]
  show ?thesis by auto
qed

text \<open>
  C8, as stated, fails: the claim is that \<open>chunk_audio\<close> is finite for every waveform,
  so that a transcription never runs forever. With a chunk length and an overlap of one
  second each the stride is 0, and on a waveform of 16001 samples the generator yields
  \<open>audio_data[0:16000]\<close> again and again: \<open>chunk_audio\<close> never stops, and neither does
  \<open>transcribe_audio\<close> with a pipeline that always answers.
\<close>

theorem chunk_audio_finite_counterexample:
  "chunk_audio (init 1 1 8) (replicate 16001 (0::nat)) = None
   \<and> transcribe_audio (init 1 1 8) (constant_decoder (replicate 16001 0)) counting_pipe ''a.wav'' 0
       = None"
proof -
  have ne: "replicate 16001 (0::nat) \<noteq> []" by simp
  have "chunk_windows_from (init 1 1 8) (replicate 16001 (0::nat)) (At 0) = None"
    by (rule cwf_diverges) (simp_all add: stride_zero)
  moreover have "for_loop (init 1 1 8) counting_pipe (replicate 16001 (0::nat)) (At 0) [] [] 0 = None"
    by (rule for_loop_diverges) (simp_all add: stride_zero counting_pipe_answers)
  ultimately show ?thesis
    by (simp add: chunk_audio_def chunk_windows_def transcribe_audio_def transcribe_body_def
        load_audio_def constant_decoder_def)
qed

text \<open>
  C8, amended: for every waveform and every valid configuration (\<open>overlap_samples \<ge> 0\<close>
  and a stride of at least 1) \<open>chunk_audio\<close> yields a finite sequence of chunks, which for
  a waveform that is not empty ends with the chunk whose end is \<open>len(waveform)\<close>, and
  \<open>transcribe_audio\<close> returns or raises, whatever the decoder and the pipeline do.
\<close>

theorem chunk_audio_finite:
  fixes W :: "'a list"
  assumes ov: "0 \<le> overlap_samples T"
    and stride: "1 \<le> chunk_length_samples T - overlap_samples T"
  shows "(\<exists>ws. chunk_windows T W = Some ws \<and> chunk_audio T W = Some (map (chunk_of W) ws)
            \<and> (W \<noteq> [] \<longrightarrow> ws \<noteq> [] \<and> snd (last ws) = int (length W)))
         \<and> (\<exists>r. transcribe_audio T librosa_load pipe audio_file s = Some r)"
proof -
  from cwf_terminates[OF stride] obtain ws where ws: "chunk_windows_from T W (At 0) = Some ws"
    by blast
  then have cw: "chunk_windows T W = Some ws" by (simp add: chunk_windows_def)
  have ends: "W \<noteq> [] \<longrightarrow> ws \<noteq> [] \<and> snd (last ws) = int (length W)"
    using run_valid_ends[OF cwf_run[OF ws] ov] by simp
  from transcribe_audio_returns[OF stride, of librosa_load pipe audio_file s]
    cw chunk_audio_Some[OF cw] ends
  show ?thesis by blast
qed

theorem chunk_audio_finite_witness:
  "0 \<le> overlap_samples (init 1 0 1)
   \<and> 1 \<le> chunk_length_samples (init 1 0 1) - overlap_samples (init 1 0 1)
   \<and> chunk_windows (init 1 0 1) (replicate 16001 (0::nat)) = Some [(0, 16000), (16000, 16001)]
   \<and> transcribe_audio (init 1 0 1) (constant_decoder (replicate 16001 0)) counting_pipe ''a.wav'' 0
       \<noteq> None"
proof -
  let ?T = "init 1 0 1"
  have c: "chunk_length_samples ?T = 16000" "overlap_samples ?T = 0"
    by (simp_all add: chunk_length_samples_def overlap_samples_def init_def SAMPLE_RATE_def py_int_def)
  have h1: "0 \<le> overlap_samples ?T" and h2: "1 \<le> chunk_length_samples ?T - overlap_samples ?T"
    by (simp_all add: c)
  have cw: "chunk_windows ?T (replicate 16001 (0::nat)) = Some [(0, 16000), (16000, 16001)]"
    using windows_two_chunks by (simp add: chunk_windows_def)
  from chunk_audio_finite[OF h1 h2, of "replicate 16001 (0::nat)"
      "constant_decoder (replicate 16001 0)" counting_pipe "''a.wav''" 0] cw h1 h2
  show ?thesis by auto
qed

subsection \<open>Configurations that the specification calls invalid\<close>

text \<open>
  C4, as stated, fails: the claim is that a configuration whose overlap is not below its
  chunk length fails with a \<open>ConfigurationError\<close> at construction or at the first use of
  \<open>chunk_audio\<close> and never yields a chunk. The source checks nothing: with one second for
  both, \<open>__init__\<close> builds the transcriber, \<open>chunk_audio\<close> yields the one-sample waveform
  as a chunk, and \<open>transcribe_audio\<close> returns a transcript.
\<close>

theorem invalid_stride_counterexample:
  "overlap_seconds (init 1 1 8) \<ge> chunk_length_seconds (init 1 1 8)
   \<and> chunk_length_samples (init 1 1 8) - overlap_samples (init 1 1 8) < 1
   \<and> chunk_audio (init 1 1 8) [0::nat] = Some [[0]]
   \<and> transcribe_audio (init 1 1 8) (constant_decoder [0]) counting_pipe ''a.wav'' 0
       = Some (Inr ''t'', 1)"
proof -
  have cw: "chunk_windows_from (init 1 1 8) [0::nat] (At 0) = Some [(0, 1)]"
    by (simp add: cwf_At_last stride_zero)
  then have "chunk_windows (init 1 1 8) [0::nat] = Some [(0, 1)]"
    by (simp add: chunk_windows_def)
  from chunk_audio_Some[OF this] cw show ?thesis
    by (simp add: stride_zero chunk_of_def py_slice_def transcribe_audio_def transcribe_body_def
        load_audio_def constant_decoder_def for_loop_finite Let_def transcribe_batch_def
        counting_pipe_def stub_fragment_def init_fields)
qed

text \<open>
  C4, amended: for every configuration with a stride below 1 neither the construction
  nor \<open>chunk_audio\<close> raises an error: \<open>chunk_audio\<close> yields no chunk for an empty
  waveform, the whole waveform as its only chunk when
  \<open>0 < len(W) \<le> chunk_length_samples\<close>, and never stops yielding chunks otherwise.
\<close>

theorem invalid_stride_behaviour:
  fixes W :: "'a list"
  assumes "chunk_length_samples T - overlap_samples T < 1"
  shows "chunk_audio T W =
           (if W = [] then Some []
            else if int (length W) \<le> chunk_length_samples T then Some [W]
            else None)"
proof (cases "W = []")
  case True
  then show ?thesis by (simp add: chunk_audio_Some[OF chunk_windows_empty])
next
  case ne: False
  show ?thesis
  proof (cases "int (length W) \<le> chunk_length_samples T")
    case True
    with ne have "chunk_windows T W = Some [(0, int (length W))]"
      by (simp add: chunk_windows_def cwf_At_last)
    from chunk_audio_Some[OF this] ne True show ?thesis
      by (simp add: chunk_of_def py_slice_whole)
  next
    case False
    with ne assms have "chunk_windows_from T W (At 0) = None"
      by (intro cwf_diverges) simp_all
    with ne False show ?thesis by (simp add: chunk_audio_def chunk_windows_def)
  qed
qed

theorem invalid_stride_behaviour_witness:
  "chunk_length_samples (init 1 1 8) - overlap_samples (init 1 1 8) < 1
   \<and> chunk_audio (init 1 1 8) ([]::nat list) = Some []
   \<and> chunk_audio (init 1 1 8) [5::nat, 7] = Some [[5, 7]]
   \<and> chunk_audio (init 1 1 8) (replicate 16001 (0::nat)) = None"
proof -
  have h: "chunk_length_samples (init 1 1 8) - overlap_samples (init 1 1 8) < 1"
    by (simp add: stride_zero)
  from invalid_stride_behaviour[OF h, of "[]::nat list"]
    invalid_stride_behaviour[OF h, of "[5::nat, 7]"]
    invalid_stride_behaviour[OF h, of "replicate 16001 (0::nat)"] h
  show ?thesis by (simp add: stride_zero)
qed

subsection \<open>The transcript\<close>

lemma windows_three_chunks:
  "chunk_windows (init 1 0 2) three_chunks = Some [(0, 16000), (16000, 32000), (32000, 32001)]"
  by (simp add: chunk_windows_def three_chunks_def init_def SAMPLE_RATE_def cwf_At_more cwf_At_last
      chunk_length_samples_def overlap_samples_def py_int_def)

lemma chunks_three_chunks:
  "map (chunk_of three_chunks) [(0, 16000), (16000, 32000), (32000, 32001)]
     = [replicate 16000 5, replicate 16000 7, [3]]"
  by (simp add: chunk_of_def py_slice_def three_chunks_def)

lemma chunk_of_three_chunks:
  "chunk_of three_chunks (0, 16000) = replicate 16000 5"
  "chunk_of three_chunks (16000, 32000) = replicate 16000 7"
  "chunk_of three_chunks (32000, 32001) = [3]"
  using chunks_three_chunks by simp_all

lemma stub_fragments:
  "stub_fragment (replicate 16000 5) = ''a''" "stub_fragment (replicate 16000 7) = ''b''"
  "stub_fragment [3] = ''t''"
  by (simp_all add: stub_fragment_def)

lemma transcribe_audio_via_batch_loop:
  assumes "librosa_load audio_file = Some W" and "chunk_windows T W = Some ws"
  shows "transcribe_audio T librosa_load pipe audio_file s =
     (case batch_loop T pipe (map (chunk_of W) ws) [] [] s of
        (Inl e, s') \<Rightarrow> Some (Inl TypeError, s')
      | (Inr (batch_chunks, all_transcriptions), s') \<Rightarrow>
          if batch_chunks \<noteq> [] then
            (case transcribe_batch pipe batch_chunks s' of
               (Inl e, s'') \<Rightarrow> Some (Inl TypeError, s'')
             | (Inr transcriptions, s'') \<Rightarrow>
                 Some (Inr (str_join '' '' (all_transcriptions @ transcriptions)), s''))
          else Some (Inr (str_join '' '' all_transcriptions), s'))"
  using assms
  by (simp add: transcribe_audio_def transcribe_body_def load_audio_def chunk_windows_def
      for_loop_finite split: prod.splits sum.splits)

lemma chunk_audio_SomeD:
  "chunk_audio T W = Some chunks \<Longrightarrow> \<exists>ws. chunk_windows T W = Some ws \<and> chunks = map (chunk_of W) ws"
  by (auto simp: chunk_audio_def split: bind_splits)



subsection \<open>Independence of the state of the pipeline\<close>

lemma transcribe_batch_deterministic:
  assumes "\<forall>cs s1 s2. fst (pipe cs s1) = fst (pipe cs s2)"
  shows "fst (transcribe_batch pipe cs s1) = fst (transcribe_batch pipe cs s2)"
proof -
  from assms have "fst (pipe cs s1) = fst (pipe cs s2)" by blast
  then show ?thesis
    by (cases "pipe cs s1"; cases "pipe cs s2") (auto simp: transcribe_batch_def split: option.splits)
qed

lemma batch_loop_deterministic:
  assumes det: "\<forall>cs s1 s2. fst (pipe cs s1) = fst (pipe cs s2)"
  shows "fst (batch_loop T pipe cs bc ats s1) = fst (batch_loop T pipe cs bc ats s2)"
proof (induction cs arbitrary: bc ats s1 s2)
  case Nil
  then show ?case by simp
next
  case (Cons c cs)
  show ?case
  proof (cases "int (length (bc @ [c])) = batch_size T")
    case True
    obtain r1 t1 where p1: "transcribe_batch pipe (bc @ [c]) s1 = (r1, t1)" by (cases "transcribe_batch pipe (bc @ [c]) s1")
    obtain r2 t2 where p2: "transcribe_batch pipe (bc @ [c]) s2 = (r2, t2)" by (cases "transcribe_batch pipe (bc @ [c]) s2")
    from transcribe_batch_deterministic[OF det, of "bc @ [c]" s1 s2] p1 p2 have r: "r2 = r1" by simp
    show ?thesis
    proof (cases r1)
      case (Inl e)
      from True p1[unfolded Inl] p2[unfolded r Inl] show ?thesis by (simp add: Let_def)
    next
      case (Inr ts)
      from True p1[unfolded Inr] p2[unfolded r Inr] Cons.IH[of "[]" "ats @ ts" t1 t2]
      show ?thesis by (simp add: Let_def)
    qed
  next
    case False
    with Cons.IH[of "bc @ [c]" ats s1 s2] show ?thesis by (simp add: Let_def)
  qed
qed

lemma transcribe_audio_deterministic_finite:
  assumes det: "\<forall>cs s1 s2. fst (pipe cs s1) = fst (pipe cs s2)"
    and load: "librosa_load audio_file = Some W" and ws: "chunk_windows T W = Some ws"
  shows "map_option fst (transcribe_audio T librosa_load pipe audio_file s1)
       = map_option fst (transcribe_audio T librosa_load pipe audio_file s2)"
proof -
  let ?cs = "map (chunk_of W) ws"
  obtain r1 t1 where b1: "batch_loop T pipe ?cs [] [] s1 = (r1, t1)" by (cases "batch_loop T pipe ?cs [] [] s1")
  obtain r2 t2 where b2: "batch_loop T pipe ?cs [] [] s2 = (r2, t2)" by (cases "batch_loop T pipe ?cs [] [] s2")
  from batch_loop_deterministic[OF det, of T ?cs "[]" "[]" s1 s2] b1 b2 have r: "r2 = r1" by simp
  note via = transcribe_audio_via_batch_loop[of librosa_load audio_file W T ws pipe, OF load ws]
  show ?thesis
  proof (cases r1)
    case (Inl e)
    from b1[unfolded Inl] b2[unfolded r Inl] show ?thesis
      by (simp add: via)
  next
    case (Inr p)
    obtain bc ats where p: "p = (bc, ats)" by (cases p)
    obtain q1 u1 where c1: "transcribe_batch pipe bc t1 = (q1, u1)" by (cases "transcribe_batch pipe bc t1")
    obtain q2 u2 where c2: "transcribe_batch pipe bc t2 = (q2, u2)" by (cases "transcribe_batch pipe bc t2")
    from transcribe_batch_deterministic[OF det, of bc t1 t2] c1 c2 have q: "q2 = q1" by simp
    from b1[unfolded Inr p] b2[unfolded r Inr p] c1 c2[unfolded q] show ?thesis
      by (cases q1) (simp_all add: via)
  qed
qed



text \<open>
  C9: for a valid configuration and a pipeline whose answer to a list of chunks does not
  depend on its internal state, the outcome of \<open>transcribe_audio\<close> on a file (the
  transcript, character for character, or the error) is the same from every state of the
  pipeline; in particular a call and a second call made after it, from the state the first
  one left, both end and end with the same outcome.
\<close>

theorem transcribe_audio_deterministic:
  assumes ov: "0 \<le> overlap_samples T"
    and stride: "1 \<le> chunk_length_samples T - overlap_samples T"
    and det: "\<forall>cs s1 s2. fst (pipe cs s1) = fst (pipe cs s2)"
  shows "(\<forall>s1 s2. map_option fst (transcribe_audio T librosa_load pipe audio_file s1)
                 = map_option fst (transcribe_audio T librosa_load pipe audio_file s2))
         \<and> (\<exists>r s1 s2. transcribe_audio T librosa_load pipe audio_file s = Some (r, s1)
                     \<and> transcribe_audio T librosa_load pipe audio_file s1 = Some (r, s2))"
proof -
  have same: "map_option fst (transcribe_audio T librosa_load pipe audio_file s1)
                 = map_option fst (transcribe_audio T librosa_load pipe audio_file s2)" for s1 s2
  proof (cases "librosa_load audio_file")
    case None
    then show ?thesis by (simp add: transcribe_audio_load_fails)
  next
    case (Some W)
    from cwf_terminates[OF stride] obtain ws where "chunk_windows_from T W (At 0) = Some ws"
      by blast
    then have "chunk_windows T W = Some ws" by (simp add: chunk_windows_def)
    from transcribe_audio_deterministic_finite[of pipe librosa_load audio_file W T ws s1 s2,
        OF det Some this]
    show ?thesis .
  qed
  from transcribe_audio_returns[OF stride, of librosa_load pipe audio_file s]
  obtain r s1 where first: "transcribe_audio T librosa_load pipe audio_file s = Some (r, s1)"
    by auto
  with same[of s s1] obtain s2 where
    "transcribe_audio T librosa_load pipe audio_file s1 = Some (r, s2)"
    by (cases "transcribe_audio T librosa_load pipe audio_file s1") auto
  with first same show ?thesis by blast
qed

theorem transcribe_audio_deterministic_witness:
  "0 \<le> overlap_samples (init 1 0 2)
   \<and> 1 \<le> chunk_length_samples (init 1 0 2) - overlap_samples (init 1 0 2)
   \<and> fst (counting_pipe [[3]] 0) = fst (counting_pipe [[3]] 7)
   \<and> snd (counting_pipe [[3]] 0) \<noteq> snd (counting_pipe [[3]] 7)
   \<and> map_option fst (transcribe_audio (init 1 0 2) (constant_decoder three_chunks) counting_pipe ''a.wav'' 0)
       = Some (Inr ''a b t'')
   \<and> map_option fst (transcribe_audio (init 1 0 2) (constant_decoder three_chunks) counting_pipe ''a.wav'' 2)
       = Some (Inr ''a b t'')"
proof -
  let ?T = "init 1 0 2"
  have c: "chunk_length_samples ?T = 16000" "overlap_samples ?T = 0"
    by (simp_all add: chunk_length_samples_def overlap_samples_def init_def SAMPLE_RATE_def py_int_def)
  have h1: "0 \<le> overlap_samples ?T" and h2: "1 \<le> chunk_length_samples ?T - overlap_samples ?T"
    by (simp_all add: c)
  have det: "\<forall>cs s1 s2. fst (counting_pipe cs s1) = fst (counting_pipe cs s2)"
    by (simp add: counting_pipe_def)
  have run0: "transcribe_audio ?T (constant_decoder three_chunks) counting_pipe ''a.wav'' 0
                = Some (Inr ''a b t'', 2)"
    by (simp add: transcribe_audio_via_batch_loop[of "constant_decoder three_chunks" "''a.wav''"
          three_chunks ?T _ counting_pipe, OF _ windows_three_chunks] constant_decoder_def
        chunk_of_three_chunks Let_def init_fields transcribe_batch_def counting_pipe_def stub_fragments)
  from transcribe_audio_deterministic[OF h1 h2 det, of "constant_decoder three_chunks" "''a.wav''" 0]
  have "map_option fst (transcribe_audio ?T (constant_decoder three_chunks) counting_pipe ''a.wav'' 0)
      = map_option fst (transcribe_audio ?T (constant_decoder three_chunks) counting_pipe ''a.wav'' 2)"
    by blast
  with run0 h1 h2 show ?thesis by (simp add: counting_pipe_def)
qed

subsection \<open>The calls of the pipeline\<close>

lemma transcribe_batch_logged:
  "transcribe_batch (logged pipe) cs (s, lg) =
     (fst (transcribe_batch pipe cs s), (snd (transcribe_batch pipe cs s), lg @ [cs]))"
  by (cases "pipe cs s") (auto simp: transcribe_batch_def logged_def split: option.splits)

lemma batch_loop_logged_calls:
  assumes B: "1 \<le> batch_size T"
  shows "batch_loop T (logged pipe) cs bc ats (s, lg) = (Inr (bc', ats'), (s', lg')) \<Longrightarrow>
     int (length bc) < batch_size T \<Longrightarrow>
     batch_loop T pipe cs bc ats s = (Inr (bc', ats'), s') \<and>
     (\<exists>new. lg' = lg @ new \<and> concat new @ bc' = bc @ cs
         \<and> (\<forall>b\<in>set new. int (length b) = batch_size T) \<and> int (length bc') < batch_size T)"
proof (induction cs arbitrary: bc ats s lg)
  case Nil
  then show ?case by simp
next
  case (Cons c cs)
  show ?case
  proof (cases "int (length (bc @ [c])) = batch_size T")
    case True
    obtain r s1 where tb: "transcribe_batch pipe (bc @ [c]) s = (r, s1)"
      by (cases "transcribe_batch pipe (bc @ [c]) s")
    show ?thesis
    proof (cases r)
      case (Inl e)
      with True tb Cons.prems(1) show ?thesis
        by (simp add: Let_def transcribe_batch_logged)
    next
      case (Inr ts)
      with True tb Cons.prems(1)
      have "batch_loop T (logged pipe) cs [] (ats @ ts) (s1, lg @ [bc @ [c]]) = (Inr (bc', ats'), (s', lg'))"
        by (simp add: Let_def transcribe_batch_logged)
      from Cons.IH[OF this] B obtain new where
        "batch_loop T pipe cs [] (ats @ ts) s1 = (Inr (bc', ats'), s')"
        "lg' = (lg @ [bc @ [c]]) @ new" "concat new @ bc' = cs"
        "\<forall>b\<in>set new. int (length b) = batch_size T" "int (length bc') < batch_size T"
        by auto
      with True tb Inr show ?thesis
        by (auto simp: Let_def intro!: exI[of _ "(bc @ [c]) # new"])
    qed
  next
    case False
    with Cons.prems have "batch_loop T (logged pipe) cs (bc @ [c]) ats (s, lg) = (Inr (bc', ats'), (s', lg'))"
      and "int (length (bc @ [c])) < batch_size T"
      by (simp_all add: Let_def)
    from Cons.IH[OF this] False show ?thesis by (simp add: Let_def)
  qed
qed

lemma length_concat_batches:
  "\<forall>b\<in>set new. int (length b) = B \<Longrightarrow> int (length (concat new)) = B * int (length new)"
  by (induction new) (simp_all add: algebra_simps)

lemma ceiling_quot_rem:
  fixes k r B :: int
  assumes "0 < B" "0 \<le> r" "r < B"
  shows "\<lceil>of_int (B * k + r) / of_int B :: rat\<rceil> = k + (if r = 0 then 0 else 1)"
proof -
  have eq: "(of_int (B * k + r) / of_int B :: rat) = of_int r / of_int B + of_int k"
    using assms by (simp add: field_simps)
  show ?thesis
  proof (cases "r = 0")
    case True
    with assms show ?thesis unfolding eq by simp
  next
    case False
    with assms have "0 < (of_int r / of_int B :: rat)" "(of_int r / of_int B :: rat) < 1"
      by simp_all
    then have "\<lceil>of_int r / of_int B :: rat\<rceil> = 1"
      by (simp add: ceiling_eq_iff)
    with False show ?thesis unfolding eq by simp
  qed
qed


text \<open>
  C5: for a batch size \<open>B \<ge> 1\<close> and an audio input that \<open>chunk_audio\<close> cuts into \<open>N\<close>
  chunks, a run of \<open>transcribe_audio\<close> in which no call of the pipeline raises makes
  \<open>ceil(N / B)\<close> calls of \<open>transcribe_batch\<close>; the calls, one after the other, hold the
  chunks in the order in which they were yielded; every call but the last receives \<open>B\<close>
  chunks, and the last one \<open>N mod B\<close> chunks, or \<open>B\<close> if \<open>N mod B = 0\<close>. The calls are
  observed by running the pipeline under \<open>logged\<close>, which does not change the outcome.
\<close>

theorem batching_calls:
  assumes B: "1 \<le> batch_size T"
    and load: "librosa_load audio_file = Some W"
    and chunks: "chunk_audio T W = Some chunks"
    and run: "transcribe_audio T librosa_load (logged pipe) audio_file (s, [])
                = Some (Inr transcript, (s', calls))"
  shows "transcribe_audio T librosa_load pipe audio_file s = Some (Inr transcript, s')
     \<and> concat calls = chunks
     \<and> int (length calls) = \<lceil>of_nat (length chunks) / of_int (batch_size T) :: rat\<rceil>
     \<and> (\<forall>i. Suc i < length calls \<longrightarrow> int (length (calls ! i)) = batch_size T)
     \<and> (calls \<noteq> [] \<longrightarrow>
           int (length (last calls)) =
             (if int (length chunks) mod batch_size T = 0 then batch_size T
              else int (length chunks) mod batch_size T))"
proof -
  let ?B = "batch_size T"
  from chunk_audio_SomeD[OF chunks] obtain ws where
    ws: "chunk_windows T W = Some ws" and eq: "chunks = map (chunk_of W) ws" by blast
  note via = transcribe_audio_via_batch_loop[of librosa_load audio_file W T ws, OF load ws]
  obtain r s1 lg1 where bl: "batch_loop T (logged pipe) chunks [] [] (s, []) = (r, (s1, lg1))"
    by (cases "batch_loop T (logged pipe) chunks [] [] (s, [])") auto
  from run bl obtain bc ats where r: "r = Inr (bc, ats)"
    by (cases r) (auto simp: via eq)
  from batch_loop_logged_calls[OF B bl[unfolded r]] B obtain new where
    plain: "batch_loop T pipe chunks [] [] s = (Inr (bc, ats), s1)"
    and new: "lg1 = new" "concat new @ bc = chunks"
      "\<forall>b\<in>set new. int (length b) = ?B" "int (length bc) < ?B"
    by auto
  have fin: "transcribe_audio T librosa_load pipe audio_file s = Some (Inr transcript, s')
      \<and> calls = new @ (if bc = [] then [] else [bc])"
  proof (cases "bc = []")
    case True
    with run bl r plain new(1) show ?thesis by (simp add: via eq)
  next
    case False
    obtain q s2 where tb: "transcribe_batch pipe bc s1 = (q, s2)"
      by (cases "transcribe_batch pipe bc s1")
    with False run bl r plain new(1) show ?thesis
      by (cases q) (simp_all add: via eq transcribe_batch_logged)
  qed
  have N: "int (length chunks) = ?B * int (length new) + int (length bc)"
    using length_concat_batches[OF new(3)] new(2)[symmetric] by simp
  have pos: "0 < ?B" using B by simp
  have modN: "int (length chunks) mod ?B = int (length bc)"
    unfolding N using pos new(4) by simp
  have count: "int (length calls) = \<lceil>of_nat (length chunks) / of_int ?B :: rat\<rceil>"
  proof -
    have "(of_nat (length chunks) :: rat) = of_int (?B * int (length new) + int (length bc))"
      using N by (metis of_int_of_nat_eq)
    then show ?thesis
      using ceiling_quot_rem[OF pos _ new(4), of "int (length new)"] fin by simp
  qed
  have full: "\<forall>i. Suc i < length calls \<longrightarrow> int (length (calls ! i)) = ?B"
  proof (intro allI impI)
    fix i assume "Suc i < length calls"
    with fin have "i < length new" by (simp split: if_splits)
    with fin new(3) show "int (length (calls ! i)) = ?B" by (simp add: nth_append)
  qed
  have last: "calls \<noteq> [] \<longrightarrow> int (length (last calls)) =
      (if int (length chunks) mod ?B = 0 then ?B else int (length chunks) mod ?B)"
  proof (cases "bc = []")
    case True
    with fin new(3) modN show ?thesis by auto
  next
    case False
    with fin modN show ?thesis by simp
  qed
  from fin new(2) count full last show ?thesis by auto
qed

lemma transcribe_batch_counting:
  "transcribe_batch counting_pipe cs s = (Inr (map stub_fragment cs), Suc s)"
  by (simp add: transcribe_batch_def counting_pipe_def)

theorem batching_calls_witness:
  "1 \<le> batch_size (init 1 0 2)
   \<and> constant_decoder three_chunks ''a.wav'' = Some three_chunks
   \<and> chunk_audio (init 1 0 2) three_chunks = Some [replicate 16000 5, replicate 16000 7, [3]]
   \<and> transcribe_audio (init 1 0 2) (constant_decoder three_chunks) (logged counting_pipe) ''a.wav'' (0, [])
       = Some (Inr ''a b t'', (2, [[replicate 16000 5, replicate 16000 7], [[3]]]))
   \<and> transcribe_audio (init 1 0 2) (constant_decoder three_chunks) counting_pipe ''a.wav'' 0
       = Some (Inr ''a b t'', 2)
   \<and> \<lceil>of_nat (length [replicate 16000 (5::nat), replicate 16000 7, [3]]) / of_int (batch_size (init 1 0 2)) :: rat\<rceil> = 2"
proof -
  let ?T = "init 1 0 2"
  have B: "1 \<le> batch_size ?T" by (simp add: init_fields)
  have load: "constant_decoder three_chunks ''a.wav'' = Some three_chunks"
    by (simp add: constant_decoder_def)
  have chunks: "chunk_audio ?T three_chunks = Some [replicate 16000 5, replicate 16000 7, [3]]"
    using chunk_audio_Some[OF windows_three_chunks] by (simp only: chunks_three_chunks)
  have run: "transcribe_audio ?T (constant_decoder three_chunks) (logged counting_pipe) ''a.wav'' (0, [])
       = Some (Inr ''a b t'', (2, [[replicate 16000 5, replicate 16000 7], [[3]]]))"
    by (simp add: transcribe_audio_via_batch_loop[of "constant_decoder three_chunks" "''a.wav''"
          three_chunks ?T _ "logged counting_pipe", OF load windows_three_chunks]
        chunk_of_three_chunks Let_def init_fields transcribe_batch_logged
        transcribe_batch_counting stub_fragments)
  from batching_calls[OF B load chunks run] B load chunks run
  show ?thesis by (simp add: init_fields ceiling_eq_iff)
qed

end
